theory Spec2Isabelle
  imports Complex_Main "HOL-Library.Sublist"
begin

section \<open>Data model (types.ts)\<close>

text \<open>
  The interfaces of \<^verbatim>\<open>types.ts\<close> become records. Record fields share one name space,
  so \<^verbatim>\<open>Track.id\<close> and \<^verbatim>\<open>Track.file\<close> are \<open>track_id\<close> and \<open>track_file\<close>,
  \<^verbatim>\<open>SmartPlaylist.id\<close> and \<^verbatim>\<open>.name\<close> are \<open>playlist_id\<close> and \<open>playlist_name\<close>, and \<^verbatim>\<open>criteria.mood\<close> is \<open>criteria_mood\<close>. An optional field
  (\<^verbatim>\<open>insight?\<close>, \<^verbatim>\<open>coverArt?\<close>, \<^verbatim>\<open>mood?\<close>) is an \<open>option\<close>, \<open>None\<close> standing for
  \<^verbatim>\<open>undefined\<close>. A \<^verbatim>\<open>File\<close> is represented by its name. A JavaScript number that
  is used as an index is an \<open>int\<close>; one that measures time or loudness is a \<open>real\<close>
  (the values NaN and the infinities are outside the model).
\<close>

record AIInsight =
  mood :: string
  fact :: string
  vibe :: string

type_synonym File = string

record Track =
  track_id :: string
  track_file :: File
  title :: string
  artist :: string
  album :: string
  duration :: real
  url :: string
  coverArt :: "string option"
  insight :: "AIInsight option"

datatype RepeatMode = none_mode | all_mode | one_mode

record PlayerState =
  isPlaying :: bool
  currentTrackIndex :: int
  volume :: real
  currentTime :: real
  repeatMode :: RepeatMode
  isShuffle :: bool

record Criteria =
  criteria_mood :: "string option"

record SmartPlaylist =
  playlist_id :: string
  playlist_name :: string
  criteria :: Criteria

text \<open>The initial value of the \<^verbatim>\<open>playerState\<close> hook.\<close>

definition initialPlayerState :: PlayerState where
  "initialPlayerState =
     \<lparr>isPlaying = False, currentTrackIndex = - 1, volume = 7 / 10, currentTime = 0,
      repeatMode = none_mode, isShuffle = False\<rparr>"

section \<open>Smart-view filter\<close>

text \<open>
  \<^verbatim>\<open>String.prototype.toLowerCase\<close> is a built-in of the language, with the case
  mapping of Unicode, and no code of this program. It is therefore an argument of
  \<open>displayedTracks\<close> below: what is proved of \<open>displayedTracks\<close> holds for every
  function from strings to strings put in its place, the built-in included, and for
  every way of writing a JavaScript string as a \<open>string\<close>.

  \<open>asciiToLowerCase\<close> is that built-in on ASCII text only (the letters A to Z are moved
  to a to z, every other character is kept). It serves to run the scenarios, whose moods
  are ASCII words; on other text it is not the built-in.
\<close>

definition lowerChar :: "char \<Rightarrow> char" where
  "lowerChar c =
     (let n = (of_char c :: nat) in if 65 \<le> n \<and> n \<le> 90 then char_of (n + 32) else c)"

definition asciiToLowerCase :: "string \<Rightarrow> string" where
  "asciiToLowerCase s = map lowerChar s"

text \<open>
  \<^verbatim>\<open>createSmartPlaylist(mood)\<close>; the identifier drawn from \<^verbatim>\<open>Math.random\<close> is the
  argument \<open>rid\<close>.
\<close>

definition createSmartPlaylist :: "string \<Rightarrow> string \<Rightarrow> SmartPlaylist" where
  "createSmartPlaylist rid m =
     \<lparr>playlist_id = rid, playlist_name = m @ '' Vibes'',
      criteria = \<lparr>criteria_mood = Some m\<rparr>\<rparr>"

text \<open>
  The memoised \<^verbatim>\<open>displayedTracks\<close>; its first argument stands for the built-in
  \<^verbatim>\<open>toLowerCase\<close>. The test \<^verbatim>\<open>!activeSmartPlaylistId\<close> holds for
  \<^verbatim>\<open>null\<close> and for the empty string. The filter compares two values that may both
  be \<^verbatim>\<open>undefined\<close> with \<^verbatim>\<open>===\<close>: the lower-cased mood of the track's insight (absent
  when the track has no insight) and the lower-cased mood of the criterion (absent when
  the criterion has none).
\<close>

definition displayedTracks ::
  "(string \<Rightarrow> string) \<Rightarrow> Track list \<Rightarrow> SmartPlaylist list \<Rightarrow> string option
     \<Rightarrow> Track list" where
  "displayedTracks toLowerCase tracks smartPlaylists activeSmartPlaylistId =
     (case activeSmartPlaylistId of
        None \<Rightarrow> tracks
      | Some a \<Rightarrow>
          if a = [] then tracks
          else (case find (\<lambda>p. playlist_id p = a) smartPlaylists of
                  None \<Rightarrow> tracks
                | Some playlist \<Rightarrow>
                    filter (\<lambda>t. map_option (\<lambda>i. toLowerCase (mood i)) (insight t)
                                 = map_option toLowerCase (criteria_mood (criteria playlist)))
                      tracks))"

section \<open>Playback transport\<close>

text \<open>
  Each handler reads \<^verbatim>\<open>displayedTracks\<close> and \<^verbatim>\<open>playerState\<close> of the render it was
  created in and replaces the player state; here it is a function of the view and the
  state, returning the new state. The handlers also drive the audio element and the
  audio context (\<^verbatim>\<open>resume\<close>, \<^verbatim>\<open>play\<close>, resetting the element's time), which are
  not part of \<^verbatim>\<open>PlayerState\<close> and are left out. No handler contains a \<^verbatim>\<open>throw\<close> or
  indexes the view, so each is a total function without an error result.
\<close>

definition playTrack :: "Track list \<Rightarrow> int \<Rightarrow> PlayerState \<Rightarrow> PlayerState" where
  "playTrack view index prev =
     (if index < 0 \<or> index \<ge> int (length view) then prev
      else prev\<lparr>currentTrackIndex := index, isPlaying := True\<rparr>)"

definition togglePlay :: "Track list \<Rightarrow> PlayerState \<Rightarrow> PlayerState" where
  "togglePlay view playerState =
     (if currentTrackIndex playerState = - 1 \<and> length view > 0
      then playTrack view 0 playerState
      else playerState\<lparr>isPlaying := \<not> isPlaying playerState\<rparr>)"

definition nextTrack :: "Track list \<Rightarrow> PlayerState \<Rightarrow> PlayerState" where
  "nextTrack view playerState =
     (if repeatMode playerState = one_mode then playerState
      else
        let nextIndex = currentTrackIndex playerState + 1;
            nextIndex = (if nextIndex \<ge> int (length view)
                         then (if repeatMode playerState = all_mode then 0
                               else currentTrackIndex playerState)
                         else nextIndex)
        in playTrack view nextIndex playerState)"

definition prevTrack :: "Track list \<Rightarrow> PlayerState \<Rightarrow> PlayerState" where
  "prevTrack view playerState =
     (let prevIndex = currentTrackIndex playerState - 1;
          prevIndex = (if prevIndex < 0
                       then (if repeatMode playerState = all_mode then int (length view) - 1
                             else 0)
                       else prevIndex)
      in playTrack view prevIndex playerState)"

text \<open>
  \<^verbatim>\<open>handleVolumeChange\<close>; \<open>vol\<close> is the number that \<^verbatim>\<open>parseFloat\<close> read from the
  control.
\<close>

definition handleVolumeChange :: "real \<Rightarrow> PlayerState \<Rightarrow> PlayerState" where
  "handleVolumeChange vol prev = prev\<lparr>volume := vol\<rparr>"

section \<open>Enrichment pipeline\<close>

text \<open>
  The hooks that the background-analysis effect reads and writes are \<^verbatim>\<open>tracks\<close> and
  \<^verbatim>\<open>isInsightLoading\<close>. A call of \<^verbatim>\<open>getTrackInsight\<close> that has been issued and has
  not yet returned is a suspended \<^verbatim>\<open>analyzeUnprocessed\<close>, holding the track it found
  in its variable \<^verbatim>\<open>unprocessed\<close>; \<open>pending\<close> lists these suspended calls, oldest
  first. The other hooks of the component are neither read nor written by the effect.
\<close>

record App =
  tracks :: "Track list"
  isInsightLoading :: bool
  pending :: "Track list"

definition initialApp :: App where
  "initialApp = \<lparr>tracks = [], isInsightLoading = False, pending = []\<rparr>"

text \<open>
  \<^verbatim>\<open>getTrackInsight\<close> lives in \<^verbatim>\<open>services/geminiService\<close>; what the awaited call
  delivers is an input of the model: an insight, \<^verbatim>\<open>null\<close>, or a rejected promise.
\<close>

datatype Response = Got AIInsight | Unavailable | Rejected

text \<open>
  \<^verbatim>\<open>analyzeUnprocessed\<close> up to its \<^verbatim>\<open>await\<close>: one run of the effect, on the state of
  the render that scheduled it.
\<close>

definition analyzeUnprocessed :: "App \<Rightarrow> App" where
  "analyzeUnprocessed s =
     (case find (\<lambda>t. insight t = None) (tracks s) of
        None \<Rightarrow> s
      | Some unprocessed \<Rightarrow>
          if isInsightLoading s then s
          else s\<lparr>isInsightLoading := True, pending := pending s @ [unprocessed]\<rparr>)"

text \<open>
  \<^verbatim>\<open>analyzeUnprocessed\<close> after its \<^verbatim>\<open>await\<close>: the insight, if there is one, is merged
  into every track that carries the identifier of \<^verbatim>\<open>unprocessed\<close>, then the flag is
  cleared. A rejected promise ends the function at the \<^verbatim>\<open>await\<close>, before either
  update.
\<close>

definition analyzeUnprocessed_resume :: "Track \<Rightarrow> Response \<Rightarrow> App \<Rightarrow> App" where
  "analyzeUnprocessed_resume unprocessed r s =
     (case r of
        Rejected \<Rightarrow> s
      | Unavailable \<Rightarrow> s\<lparr>isInsightLoading := False\<rparr>
      | Got i \<Rightarrow>
          s\<lparr>tracks := map (\<lambda>t. if track_id t = track_id unprocessed
                                then t\<lparr>insight := Some i\<rparr> else t) (tracks s),
            isInsightLoading := False\<rparr>)"

text \<open>
  \<^verbatim>\<open>handleFileUpload\<close>, as far as the catalog goes. A chosen file arrives with the
  results of the two calls made for it, \<^verbatim>\<open>Math.random().toString(36).substr(2, 9)\<close>
  and \<^verbatim>\<open>URL.createObjectURL(file)\<close>. The title is the file name without a last
  extension (the regular expression \<^verbatim>\<open>/\.[^/.]+$/\<close>).
\<close>

record Upload =
  upload_id :: string
  upload_name :: string
  upload_url :: string

definition stripExtension :: "string \<Rightarrow> string" where
  "stripExtension s =
     (let r = rev s; ext = takeWhile (\<lambda>c. c \<noteq> CHR ''.'') r
      in if length ext < length r \<and> ext \<noteq> [] \<and> CHR ''/'' \<notin> set ext
         then rev (drop (Suc (length ext)) r) else s)"

definition newTrack :: "Upload \<Rightarrow> Track" where
  "newTrack f =
     \<lparr>track_id = upload_id f, track_file = upload_name f,
      title = stripExtension (upload_name f), artist = ''Local Artist'',
      album = ''Local Storage'', duration = 0, url = upload_url f,
      coverArt = Some (''https://picsum.photos/seed/'' @ upload_name f @ ''/400/400''),
      insight = None\<rparr>"

definition handleFileUpload :: "Upload list \<Rightarrow> App \<Rightarrow> App" where
  "handleFileUpload files s = s\<lparr>tracks := tracks s @ map newTrack files\<rparr>"

text \<open>
  \<^verbatim>\<open>onLoadedMetadata\<close> of the audio element: \<open>cid\<close> is \<^verbatim>\<open>currentTrack?.id\<close>, \<open>d\<close> the
  duration the element reports.
\<close>

definition onLoadedMetadata :: "string option \<Rightarrow> real \<Rightarrow> App \<Rightarrow> App" where
  "onLoadedMetadata cid d s =
     s\<lparr>tracks := map (\<lambda>t. if Some (track_id t) = cid then t\<lparr>duration := d\<rparr> else t)
                     (tracks s)\<rparr>"

text \<open>
  What can happen to the pipeline: the effect runs, the \<open>k\<close>-th outstanding call
  returns, files are added, the audio element reports a duration. React runs the effect
  after each render in which \<^verbatim>\<open>tracks\<close> or \<^verbatim>\<open>isInsightLoading\<close> has changed, on the
  state of that render; here the effect may run at any moment, on the current state,
  which covers those runs. A response for a call that is not outstanding does not exist;
  \<open>fire\<close> leaves the state as it is there. \<open>run\<close> processes a sequence of events
  from left to right, each event being one step.
\<close>

datatype Event =
    Effect
  | Returned nat Response
  | FilesChosen "Upload list"
  | LoadedMetadata "string option" real

fun fire :: "Event \<Rightarrow> App \<Rightarrow> App" where
  "fire Effect s = analyzeUnprocessed s"
| "fire (Returned k r) s =
     (if k < length (pending s)
      then analyzeUnprocessed_resume (pending s ! k) r
             (s\<lparr>pending := take k (pending s) @ drop (Suc k) (pending s)\<rparr>)
      else s)"
| "fire (FilesChosen files) s = handleFileUpload files s"
| "fire (LoadedMetadata cid d) s = onLoadedMetadata cid d s"

definition run :: "App \<Rightarrow> Event list \<Rightarrow> App" where
  "run s es = foldl (\<lambda>s e. fire e s) s es"

text \<open>
  The state a single-flight pipeline is in: nothing is outstanding, or exactly one call
  is, the flag is set, and the call is for the first track of the catalog that lacks
  insight.
\<close>

definition singleFlight :: "App \<Rightarrow> bool" where
  "singleFlight s =
     (case pending s of
        [] \<Rightarrow> True
      | [u] \<Rightarrow>
          isInsightLoading s \<and>
          (case find (\<lambda>t. insight t = None) (tracks s) of
             None \<Rightarrow> False
           | Some t \<Rightarrow> track_id t = track_id u \<and> title t = title u \<and> artist t = artist u)
      | _ \<Rightarrow> False)"

section \<open>Scenario data\<close>

text \<open>Concrete files, insights, tracks and playlists for the scenarios checked below.\<close>

definition fileX :: Upload where
  "fileX = \<lparr>upload_id = ''x1'', upload_name = ''X.mp3'', upload_url = ''blob:x''\<rparr>"

definition fileY :: Upload where
  "fileY = \<lparr>upload_id = ''y1'', upload_name = ''Y.mp3'', upload_url = ''blob:y''\<rparr>"

definition chill :: AIInsight where
  "chill = \<lparr>mood = ''Chill'', fact = ''A fact'', vibe = ''#3b82f6''\<rparr>"

definition dark :: AIInsight where
  "dark = \<lparr>mood = ''Dark'', fact = ''Another fact'', vibe = ''#111827''\<rparr>"

definition trackA :: Track where
  "trackA = (newTrack \<lparr>upload_id = ''a1'', upload_name = ''A.mp3'', upload_url = ''blob:a''\<rparr>)
              \<lparr>insight := Some chill\<rparr>"

definition trackB :: Track where
  "trackB = newTrack \<lparr>upload_id = ''b1'', upload_name = ''B.mp3'', upload_url = ''blob:b''\<rparr>"

definition trackC :: Track where
  "trackC = (newTrack \<lparr>upload_id = ''c1'', upload_name = ''C.mp3'', upload_url = ''blob:c''\<rparr>)
              \<lparr>insight := Some chill\<rparr>"

text \<open>A playlist whose criterion has no mood, as the type \<^verbatim>\<open>{ mood?: string }\<close> allows.\<close>

definition moodless :: SmartPlaylist where
  "moodless = \<lparr>playlist_id = ''p0'', playlist_name = ''Untitled'',
                 criteria = \<lparr>criteria_mood = None\<rparr>\<rparr>"

text \<open>The player state of the scenario "repeat all, three tracks, the last one current".\<close>

definition repeatAllAt :: "int \<Rightarrow> PlayerState" where
  "repeatAllAt i = initialPlayerState\<lparr>currentTrackIndex := i, repeatMode := all_mode\<rparr>"

section \<open>Auxiliary facts\<close>

lemma playTrack_empty: "playTrack [] i st = st"
  by (auto simp: playTrack_def)

lemma find_append_Some: "find P xs = Some x \<Longrightarrow> find P (xs @ ys) = Some x"
  by (induction xs) (auto split: if_splits)

lemma find_map_preserved:
  "(\<And>t. P (f t) = P t) \<Longrightarrow> find P (map f xs) = map_option f (find P xs)"
  by (induction xs) auto

lemma singleFlight_iff:
  "singleFlight s \<longleftrightarrow>
     pending s = [] \<or>
     (\<exists>u t. pending s = [u] \<and> isInsightLoading s \<and>
        find (\<lambda>t. insight t = None) (tracks s) = Some t \<and>
        track_id t = track_id u \<and> title t = title u \<and> artist t = artist u)"
  by (auto simp: singleFlight_def split: list.splits option.splits)

lemma singleFlight_Effect: "singleFlight s \<Longrightarrow> singleFlight (analyzeUnprocessed s)"
  by (auto simp: singleFlight_iff analyzeUnprocessed_def split: option.splits)

lemma singleFlight_Returned: "singleFlight s \<Longrightarrow> singleFlight (fire (Returned k r) s)"
  by (auto simp: singleFlight_iff analyzeUnprocessed_resume_def split: Response.splits)

lemma singleFlight_FilesChosen: "singleFlight s \<Longrightarrow> singleFlight (handleFileUpload files s)"
  by (auto simp: singleFlight_iff handleFileUpload_def find_append_Some)

lemma singleFlight_LoadedMetadata:
  assumes "singleFlight s" shows "singleFlight (onLoadedMetadata cid d s)"
proof (cases "pending s = []")
  case True
  then show ?thesis by (simp add: singleFlight_iff onLoadedMetadata_def)
next
  case False
  with assms obtain u t where u: "pending s = [u]" "isInsightLoading s"
    and t: "find (\<lambda>t. insight t = None) (tracks s) = Some t"
      "track_id t = track_id u" "title t = title u" "artist t = artist u"
    by (auto simp: singleFlight_iff)
  let ?f = "\<lambda>t. if Some (track_id t) = cid then t\<lparr>duration := d\<rparr> else t"
  have "find (\<lambda>t. insight t = None) (map ?f (tracks s))
          = map_option ?f (find (\<lambda>t. insight t = None) (tracks s))"
    by (rule find_map_preserved) simp
  then have "find (\<lambda>t. insight t = None) (tracks (onLoadedMetadata cid d s)) = Some (?f t)"
    by (simp add: onLoadedMetadata_def t(1))
  moreover have "track_id (?f t) = track_id u" "title (?f t) = title u" "artist (?f t) = artist u"
    using t by simp_all
  moreover have "pending (onLoadedMetadata cid d s) = [u]" "isInsightLoading (onLoadedMetadata cid d s)"
    using u by (simp_all add: onLoadedMetadata_def)
  ultimately show ?thesis
    unfolding singleFlight_iff by blast
qed

lemma singleFlight_fire: "singleFlight s \<Longrightarrow> singleFlight (fire e s)"
  by (cases e)
     (simp_all add: singleFlight_Effect singleFlight_Returned singleFlight_FilesChosen
        singleFlight_LoadedMetadata del: fire.simps(2))

lemma run_Nil: "run s [] = s"
  by (simp add: run_def)

lemma run_Cons: "run s (e # es) = run (fire e s) es"
  by (simp add: run_def)

lemma singleFlight_run: "singleFlight s \<Longrightarrow> singleFlight (run s es)"
  by (induction es arbitrary: s) (simp_all add: run_Nil run_Cons singleFlight_fire)

lemma singleFlight_initial: "singleFlight initialApp"
  by (simp add: singleFlight_def initialApp_def)

lemma pending_Effect:
  "pending (analyzeUnprocessed s) \<noteq> pending s \<Longrightarrow>
     \<not> isInsightLoading s \<and> isInsightLoading (analyzeUnprocessed s) \<and>
     (\<exists>t. find (\<lambda>t. insight t = None) (tracks s) = Some t \<and>
          pending (analyzeUnprocessed s) = pending s @ [t])"
  by (auto simp: analyzeUnprocessed_def split: option.splits if_splits)

lemma flag_cleared:
  "isInsightLoading s \<Longrightarrow> \<not> isInsightLoading (fire e s) \<Longrightarrow>
     \<exists>k r. e = Returned k r \<and> k < length (pending s) \<and> r \<noteq> Rejected \<and>
       fire e s = analyzeUnprocessed_resume (pending s ! k) r
                    (s\<lparr>pending := take k (pending s) @ drop (Suc k) (pending s)\<rparr>)"
  by (cases e)
     (auto simp: analyzeUnprocessed_def analyzeUnprocessed_resume_def handleFileUpload_def
        onLoadedMetadata_def split: option.splits if_splits Response.splits)


lemma ids_map_insight:
  "track_id \<circ> (\<lambda>t. if P t then t\<lparr>insight := x\<rparr> else t) = track_id"
  by (auto simp: fun_eq_iff)

lemma ids_map_duration:
  "track_id \<circ> (\<lambda>t. if P t then t\<lparr>duration := x\<rparr> else t) = track_id"
  by (auto simp: fun_eq_iff)

lemma ids_fire: "\<exists>ys. map track_id (tracks (fire e s)) = map track_id (tracks s) @ ys"
proof (cases e)
  case Effect
  then show ?thesis by (simp add: analyzeUnprocessed_def split: option.splits)
next
  case (Returned k r)
  then show ?thesis
    by (cases r) (simp_all add: analyzeUnprocessed_resume_def ids_map_insight)
next
  case (FilesChosen files)
  then show ?thesis by (simp add: handleFileUpload_def)
next
  case (LoadedMetadata cid d)
  then show ?thesis by (simp add: onLoadedMetadata_def ids_map_duration)
qed

lemma ids_run: "\<exists>ys. map track_id (tracks (run s es)) = map track_id (tracks s) @ ys"
proof (induction es arbitrary: s)
  case Nil
  then show ?case by (simp add: run_Nil)
next
  case (Cons e es)
  obtain ys where "map track_id (tracks (fire e s)) = map track_id (tracks s) @ ys"
    using ids_fire by blast
  moreover obtain zs where
    "map track_id (tracks (run (fire e s) es)) = map track_id (tracks (fire e s)) @ zs"
    using Cons.IH by blast
  ultimately show ?case by (simp add: run_Cons)
qed

lemma keep_fire:
  assumes sf: "singleFlight s" and d: "distinct (map track_id (tracks s))"
    and i: "i < length (tracks s)" and v: "insight (tracks s ! i) = Some v"
  shows "insight (tracks (fire e s) ! i) = Some v"
proof (cases e)
  case Effect
  with v show ?thesis by (simp add: analyzeUnprocessed_def split: option.splits)
next
  case (FilesChosen files)
  with i v show ?thesis by (simp add: handleFileUpload_def nth_append)
next
  case (LoadedMetadata cid dur)
  with i v show ?thesis by (simp add: onLoadedMetadata_def)
next
  case (Returned k r)
  show ?thesis
  proof (cases "k < length (pending s)")
    case False
    with Returned v show ?thesis by simp
  next
    case True
    with sf obtain u t where u: "pending s = [u]"
      and t: "find (\<lambda>t. insight t = None) (tracks s) = Some t" "track_id t = track_id u"
      by (auto simp: singleFlight_iff)
    from t(1) have tin: "t \<in> set (tracks s)" and tno: "insight t = None"
      by (auto simp: find_Some_iff)
    have "track_id (tracks s ! i) \<noteq> track_id u"
    proof
      assume "track_id (tracks s ! i) = track_id u"
      with t(2) have "track_id (tracks s ! i) = track_id t" by simp
      moreover have "tracks s ! i \<in> set (tracks s)" using i by simp
      ultimately have "tracks s ! i = t"
        using d tin by (auto simp: distinct_map dest: inj_onD)
      with v tno show False by simp
    qed
    with Returned True u i v show ?thesis
      by (simp add: analyzeUnprocessed_resume_def split: Response.splits)
  qed
qed

lemma keep_run:
  "singleFlight s \<Longrightarrow> distinct (map track_id (tracks (run s es))) \<Longrightarrow>
   i < length (tracks s) \<Longrightarrow> insight (tracks s ! i) = Some v \<Longrightarrow>
   insight (tracks (run s es) ! i) = Some v"
proof (induction es arbitrary: s)
  case Nil
  then show ?case by (simp add: run_Nil)
next
  case (Cons e es)
  obtain ys where ys: "map track_id (tracks (fire e s)) = map track_id (tracks s) @ ys"
    using ids_fire by blast
  obtain zs where zs:
    "map track_id (tracks (run (fire e s) es)) = map track_id (tracks (fire e s)) @ zs"
    using ids_run by blast
  from Cons.prems(2) have dfin: "distinct (map track_id (tracks (run (fire e s) es)))"
    by (simp add: run_Cons)
  with zs have d1: "distinct (map track_id (tracks (fire e s)))" by simp
  with ys have d0: "distinct (map track_id (tracks s))" by simp
  have len: "length (tracks s) \<le> length (tracks (fire e s))"
    using arg_cong [OF ys, of length] by simp
  have "insight (tracks (fire e s) ! i) = Some v"
    using keep_fire [OF Cons.prems(1) d0 Cons.prems(3) Cons.prems(4)] .
  moreover have "i < length (tracks (fire e s))" using len Cons.prems(3) by simp
  ultimately have "insight (tracks (run (fire e s) es) ! i) = Some v"
    using Cons.IH [OF singleFlight_fire [OF Cons.prems(1)] dfin] by blast
  then show ?case by (simp add: run_Cons)
qed

lemma id_kept_run:
  assumes "i < length (tracks s)"
  shows "i < length (tracks (run s es)) \<and> track_id (tracks (run s es) ! i) = track_id (tracks s ! i)"
proof -
  obtain ys where ys: "map track_id (tracks (run s es)) = map track_id (tracks s) @ ys"
    using ids_run by blast
  from arg_cong [OF ys, of length] assms have len: "i < length (tracks (run s es))" by simp
  have "map track_id (tracks (run s es)) ! i = map track_id (tracks s) ! i"
    using ys assms by (simp add: nth_append)
  with len assms show ?thesis by simp
qed

lemmas eval_defs = run_def analyzeUnprocessed_def analyzeUnprocessed_resume_def
  handleFileUpload_def onLoadedMetadata_def initialApp_def newTrack_def fileX_def fileY_def

lemma scenario_XY:
  "run initialApp [FilesChosen [fileX, fileY], Effect] =
     \<lparr>tracks = [newTrack fileX, newTrack fileY], isInsightLoading = True,
      pending = [newTrack fileX]\<rparr>"
  by (simp add: eval_defs)

lemma reachable_singleFlight: "singleFlight (run initialApp es)"
  by (rule singleFlight_run [OF singleFlight_initial])

section \<open>Playback transport: the claims\<close>

text \<open>
  Claim C4. For every view and every integer \<open>index\<close> outside \<open>[0, length view)\<close>,
  \<open>-1\<close> included, \<open>playTrack\<close> (the spec's selectTrack) returns the player state it
  was given: all six fields are unchanged.
\<close>

theorem playTrack_out_of_range:
  "index < 0 \<or> int (length view) \<le> index \<Longrightarrow> playTrack view index st = st"
  by (auto simp: playTrack_def)

theorem playTrack_out_of_range_witness:
  "((- 1 :: int) < 0 \<or> int (length [trackA, trackB]) \<le> - 1)
   \<and> playTrack [trackA, trackB] (- 1) initialPlayerState = initialPlayerState
   \<and> ((2 :: int) < 0 \<or> int (length [trackA, trackB]) \<le> 2)
   \<and> playTrack [trackA, trackB] 2 initialPlayerState = initialPlayerState"
  using playTrack_out_of_range [of "- 1" "[trackA, trackB]" initialPlayerState]
    playTrack_out_of_range [of 2 "[trackA, trackB]" initialPlayerState]
  by simp

text \<open>
  Claim C10. For every view and every \<open>index\<close> inside \<open>[0, length view)\<close>, \<open>playTrack\<close>
  sets \<open>currentTrackIndex\<close> to \<open>index\<close> and \<open>isPlaying\<close> to true and changes nothing
  else: volume, current time, repeat mode and shuffle flag are as before.
\<close>

theorem playTrack_in_range:
  "0 \<le> index \<Longrightarrow> index < int (length view) \<Longrightarrow>
     playTrack view index st = st\<lparr>currentTrackIndex := index, isPlaying := True\<rparr>
     \<and> currentTrackIndex (playTrack view index st) = index
     \<and> isPlaying (playTrack view index st)
     \<and> volume (playTrack view index st) = volume st
     \<and> currentTime (playTrack view index st) = currentTime st
     \<and> repeatMode (playTrack view index st) = repeatMode st
     \<and> isShuffle (playTrack view index st) = isShuffle st"
  by (simp add: playTrack_def)

theorem playTrack_in_range_witness:
  "(0 :: int) \<le> 1 \<and> 1 < int (length [trackA, trackB])
   \<and> currentTrackIndex (playTrack [trackA, trackB] 1 initialPlayerState) = 1
   \<and> isPlaying (playTrack [trackA, trackB] 1 initialPlayerState)
   \<and> volume (playTrack [trackA, trackB] 1 initialPlayerState) = 7 / 10"
  using playTrack_in_range [of 1 "[trackA, trackB]" initialPlayerState]
  by (simp add: initialPlayerState_def)

text \<open>
  Claim C6. For every non-empty view, under repeat mode "all": \<open>nextTrack\<close> (advance)
  from the last index \<open>length view - 1\<close> sets the index to \<open>0\<close>, and \<open>prevTrack\<close>
  (retreat) from index \<open>0\<close> sets it to \<open>length view - 1\<close>. The witness is the scenario
  of a view of three tracks with index 2.
\<close>

theorem repeat_all_wraps:
  "view \<noteq> [] \<Longrightarrow> repeatMode st = all_mode \<Longrightarrow>
     (currentTrackIndex st = int (length view) - 1 \<longrightarrow>
        currentTrackIndex (nextTrack view st) = 0)
     \<and> (currentTrackIndex st = 0 \<longrightarrow>
        currentTrackIndex (prevTrack view st) = int (length view) - 1)"
  by (cases view) (simp_all add: nextTrack_def prevTrack_def playTrack_def Let_def)

theorem repeat_all_wraps_witness:
  "[trackA, trackB, trackC] \<noteq> [] \<and> repeatMode (repeatAllAt 2) = all_mode
   \<and> currentTrackIndex (repeatAllAt 2) = int (length [trackA, trackB, trackC]) - 1
   \<and> currentTrackIndex (nextTrack [trackA, trackB, trackC] (repeatAllAt 2)) = 0
   \<and> currentTrackIndex (repeatAllAt 0) = 0
   \<and> currentTrackIndex (prevTrack [trackA, trackB, trackC] (repeatAllAt 0)) = 2"
  using repeat_all_wraps [of "[trackA, trackB, trackC]" "repeatAllAt 2"]
    repeat_all_wraps [of "[trackA, trackB, trackC]" "repeatAllAt 0"]
  by (simp add: repeatAllAt_def)

text \<open>
  Claim C7. Under repeat mode "none", for every view and every current index that is an
  index of the view other than its last one (so every interior index, and also the
  first), \<open>nextTrack\<close> followed by \<open>prevTrack\<close> brings \<open>currentTrackIndex\<close> back to
  where it was.
\<close>

theorem next_then_prev:
  "repeatMode st = none_mode \<Longrightarrow> 0 \<le> currentTrackIndex st \<Longrightarrow>
   currentTrackIndex st + 1 < int (length view) \<Longrightarrow>
     currentTrackIndex (prevTrack view (nextTrack view st)) = currentTrackIndex st"
  by (simp add: nextTrack_def prevTrack_def playTrack_def Let_def)

theorem next_then_prev_witness:
  "repeatMode (initialPlayerState\<lparr>currentTrackIndex := 1\<rparr>) = none_mode
   \<and> 0 \<le> currentTrackIndex (initialPlayerState\<lparr>currentTrackIndex := 1\<rparr>)
   \<and> currentTrackIndex (initialPlayerState\<lparr>currentTrackIndex := 1\<rparr>) + 1
       < int (length [trackA, trackB, trackC])
   \<and> currentTrackIndex
        (prevTrack [trackA, trackB, trackC]
           (nextTrack [trackA, trackB, trackC] (initialPlayerState\<lparr>currentTrackIndex := 1\<rparr>)))
       = 1"
  using next_then_prev
    [of "initialPlayerState\<lparr>currentTrackIndex := 1\<rparr>" "[trackA, trackB, trackC]"]
  by (simp add: initialPlayerState_def)

text \<open>
  At the edges the round trip does not return: from "no selection" on a non-empty view it
  ends at index 0, and from the last index of a view of two or more tracks it ends one
  before the last.
\<close>

lemma next_then_prev_at_edges:
  "repeatMode st = none_mode \<Longrightarrow> view \<noteq> [] \<Longrightarrow> currentTrackIndex st = - 1 \<Longrightarrow>
     currentTrackIndex (prevTrack view (nextTrack view st)) = 0"
  "repeatMode st = none_mode \<Longrightarrow> 2 \<le> length view \<Longrightarrow>
   currentTrackIndex st = int (length view) - 1 \<Longrightarrow>
     currentTrackIndex (prevTrack view (nextTrack view st)) = int (length view) - 2"
  by (auto simp: nextTrack_def prevTrack_def playTrack_def Let_def)

text \<open>
  Claim C8, as amended. On an empty view \<open>playTrack\<close>, \<open>nextTrack\<close> and \<open>prevTrack\<close>
  return the player state unchanged, for every index and every state; \<open>togglePlay\<close>
  flips \<open>isPlaying\<close> and leaves the other fields alone. All four are total functions,
  with no failure result.
\<close>

theorem empty_view_transport:
  "playTrack [] i st = st \<and> nextTrack [] st = st \<and> prevTrack [] st = st
   \<and> togglePlay [] st = st\<lparr>isPlaying := \<not> isPlaying st\<rparr>"
  by (simp add: nextTrack_def prevTrack_def playTrack_empty togglePlay_def Let_def)

theorem empty_view_transport_witness:
  "playTrack [] 0 initialPlayerState = initialPlayerState
   \<and> nextTrack [] initialPlayerState = initialPlayerState
   \<and> prevTrack [] initialPlayerState = initialPlayerState
   \<and> isPlaying (togglePlay [] initialPlayerState)"
  using empty_view_transport [of 0 initialPlayerState]
  by (simp add: initialPlayerState_def)

text \<open>
  The claim as first stated fails for \<open>togglePlay\<close>: on the empty view, from the initial
  state, it turns \<open>isPlaying\<close> on.
\<close>

theorem empty_view_togglePlay_counterexample:
  "isPlaying (togglePlay [] initialPlayerState) \<noteq> isPlaying initialPlayerState"
  by (simp add: togglePlay_def initialPlayerState_def)

text \<open>
  Claim C5, as amended. \<open>handleVolumeChange\<close> (the spec's setVolume) stores the number it
  is given and changes no other field; the stored volume therefore lies in \<open>[0, 1]\<close>
  exactly when the given number does. Nothing is clamped.
\<close>

theorem volume_stored_as_given:
  "handleVolumeChange v st = st\<lparr>volume := v\<rparr>
   \<and> volume (handleVolumeChange v st) = v
   \<and> ((0 \<le> volume (handleVolumeChange v st) \<and> volume (handleVolumeChange v st) \<le> 1)
        \<longleftrightarrow> (0 \<le> v \<and> v \<le> 1))"
  by (simp add: handleVolumeChange_def)

theorem volume_stored_as_given_witness:
  "volume (handleVolumeChange (1 / 2) initialPlayerState) = 1 / 2
   \<and> 0 \<le> volume (handleVolumeChange (1 / 2) initialPlayerState)
   \<and> volume (handleVolumeChange (1 / 2) initialPlayerState) \<le> 1"
  using volume_stored_as_given [of "1 / 2" initialPlayerState]
  by simp

text \<open>The claim as first stated fails at 1.4 and at -0.2: both are stored as they are.\<close>

theorem volume_clamp_counterexample:
  "volume (handleVolumeChange (14 / 10) initialPlayerState) = 14 / 10
   \<and> \<not> volume (handleVolumeChange (14 / 10) initialPlayerState) \<le> 1
   \<and> volume (handleVolumeChange (- (2 / 10)) initialPlayerState) = - (2 / 10)
   \<and> \<not> 0 \<le> volume (handleVolumeChange (- (2 / 10)) initialPlayerState)"
  by (simp add: handleVolumeChange_def)

section \<open>Smart-view filter: the claims\<close>

text \<open>
  Claim C3, as amended. For every catalog, playlist registry and active id: if the active
  id is unset (\<^verbatim>\<open>null\<close>, or the empty string, which the code's test treats alike) or
  no playlist of the registry carries it, the view is the catalog itself. Otherwise, if
  the first playlist carrying it has a criterion mood \<open>m\<close>, the view is the catalog
  filtered, in catalog order, to the tracks that have an insight whose mood equals \<open>m\<close>
  after \<^verbatim>\<open>toLowerCase\<close> has been applied to both; it is a subsequence of the catalog,
  and no track without insight is in it. This holds whatever function \<open>toLowerCase\<close>
  is, so it holds for the built-in. The witness is the scenario [A (Chill), B (no insight), C (Chill)]
  with playlist "Chill" active, whose view is [A, C].
\<close>

theorem displayedTracks_filter:
  "(activeId = None \<or> activeId = Some [] \<or>
      (\<exists>a. activeId = Some a \<and> find (\<lambda>p. playlist_id p = a) playlists = None)
      \<longrightarrow> displayedTracks toLowerCase catalog playlists activeId = catalog)
   \<and> (activeId = Some a \<and> a \<noteq> [] \<and> find (\<lambda>p. playlist_id p = a) playlists = Some p \<and>
      criteria_mood (criteria p) = Some m
      \<longrightarrow> displayedTracks toLowerCase catalog playlists activeId =
            filter (\<lambda>t. case insight t of None \<Rightarrow> False
                         | Some i \<Rightarrow> toLowerCase (mood i) = toLowerCase m) catalog
          \<and> subseq (displayedTracks toLowerCase catalog playlists activeId) catalog
          \<and> (\<forall>t \<in> set (displayedTracks toLowerCase catalog playlists activeId). insight t \<noteq> None))"
proof -
  have 1: "activeId = None \<or> activeId = Some [] \<or>
      (\<exists>a. activeId = Some a \<and> find (\<lambda>p. playlist_id p = a) playlists = None)
      \<longrightarrow> displayedTracks toLowerCase catalog playlists activeId = catalog"
    by (auto simp: displayedTracks_def)
  have 2: "activeId = Some a \<and> a \<noteq> [] \<and> find (\<lambda>p. playlist_id p = a) playlists = Some p \<and>
      criteria_mood (criteria p) = Some m
      \<longrightarrow> displayedTracks toLowerCase catalog playlists activeId =
            filter (\<lambda>t. case insight t of None \<Rightarrow> False
                         | Some i \<Rightarrow> toLowerCase (mood i) = toLowerCase m) catalog
          \<and> subseq (displayedTracks toLowerCase catalog playlists activeId) catalog
          \<and> (\<forall>t \<in> set (displayedTracks toLowerCase catalog playlists activeId). insight t \<noteq> None)"
  proof
    assume h: "activeId = Some a \<and> a \<noteq> [] \<and>
      find (\<lambda>p. playlist_id p = a) playlists = Some p \<and> criteria_mood (criteria p) = Some m"
    from h have d0: "displayedTracks toLowerCase catalog playlists activeId =
            filter (\<lambda>t. \<exists>z. insight t = Some z \<and> toLowerCase (mood z) = toLowerCase m)
              catalog"
      by (simp add: displayedTracks_def)
    have d: "displayedTracks toLowerCase catalog playlists activeId =
            filter (\<lambda>t. case insight t of None \<Rightarrow> False
                         | Some i \<Rightarrow> toLowerCase (mood i) = toLowerCase m) catalog"
      unfolding d0 by (rule filter_cong) (auto split: option.splits)
    have s: "subseq (displayedTracks toLowerCase catalog playlists activeId) catalog"
      unfolding d by (rule subseq_filter_left)
    have n: "\<forall>t \<in> set (displayedTracks toLowerCase catalog playlists activeId). insight t \<noteq> None"
      unfolding d by (auto split: option.splits)
    from d s n show "displayedTracks toLowerCase catalog playlists activeId =
            filter (\<lambda>t. case insight t of None \<Rightarrow> False
                         | Some i \<Rightarrow> toLowerCase (mood i) = toLowerCase m) catalog
          \<and> subseq (displayedTracks toLowerCase catalog playlists activeId) catalog
          \<and> (\<forall>t \<in> set (displayedTracks toLowerCase catalog playlists activeId). insight t \<noteq> None)"
      by (intro conjI)
  qed
  show ?thesis by (intro conjI) (rule 1 2)+
qed

theorem displayedTracks_filter_witness:
  "find (\<lambda>p. playlist_id p = ''p1'') [createSmartPlaylist ''p1'' ''Chill'']
     = Some (createSmartPlaylist ''p1'' ''Chill'')
   \<and> criteria_mood (criteria (createSmartPlaylist ''p1'' ''Chill'')) = Some ''Chill''
   \<and> displayedTracks asciiToLowerCase [trackA, trackB, trackC] [createSmartPlaylist ''p1'' ''Chill'']
        (Some ''p1'') = [trackA, trackC]
   \<and> displayedTracks asciiToLowerCase [trackA, trackB, trackC] [createSmartPlaylist ''p1'' ''Chill''] None
        = [trackA, trackB, trackC]"
proof -
  let ?pl = "createSmartPlaylist ''p1'' ''Chill''"
  note T = displayedTracks_filter [where activeId = "Some ''p1''" and playlists = "[?pl]"
      and catalog = "[trackA, trackB, trackC]" and a = "''p1''" and p = ?pl
      and m = "''Chill''" and toLowerCase = asciiToLowerCase]
  note N = displayedTracks_filter [where activeId = None and playlists = "[?pl]"
      and catalog = "[trackA, trackB, trackC]" and a = "''p1''" and p = ?pl
      and m = "''Chill''" and toLowerCase = asciiToLowerCase]
  have f: "find (\<lambda>p. playlist_id p = ''p1'') [?pl] = Some ?pl"
    by (simp add: createSmartPlaylist_def)
  have c: "criteria_mood (criteria ?pl) = Some ''Chill''"
    by (simp add: createSmartPlaylist_def)
  have "displayedTracks asciiToLowerCase [trackA, trackB, trackC] [?pl] (Some ''p1'') =
          filter (\<lambda>t. case insight t of None \<Rightarrow> False
                       | Some i \<Rightarrow> asciiToLowerCase (mood i) = asciiToLowerCase ''Chill'')
            [trackA, trackB, trackC]"
    using T f c by simp
  then have v: "displayedTracks asciiToLowerCase [trackA, trackB, trackC] [?pl] (Some ''p1'') = [trackA, trackC]"
    by (simp add: trackA_def trackB_def trackC_def newTrack_def chill_def)
  have w: "displayedTracks asciiToLowerCase [trackA, trackB, trackC] [?pl] None = [trackA, trackB, trackC]"
    using N by simp
  show ?thesis by (intro conjI) (rule f c v w)+
qed

text \<open>
  The claim as first stated fails in two places. A playlist without a criterion mood
  matches exactly the tracks without insight (both sides of the comparison are
  \<^verbatim>\<open>undefined\<close>), so a track with no insight is in a filtered view. And an active id
  that is the empty string gives the whole catalog although a playlist carries that id.
\<close>

theorem displayedTracks_filter_counterexample:
  "find (\<lambda>p. playlist_id p = ''p0'') [moodless] = Some moodless
   \<and> insight trackB = None
   \<and> displayedTracks asciiToLowerCase [trackA, trackB] [moodless] (Some ''p0'') = [trackB]
   \<and> find (\<lambda>p. playlist_id p = '''') [createSmartPlaylist '''' ''Chill'']
       = Some (createSmartPlaylist '''' ''Chill'')
   \<and> displayedTracks asciiToLowerCase [trackB] [createSmartPlaylist '''' ''Chill''] (Some '''') = [trackB]"
  by (simp add: displayedTracks_def createSmartPlaylist_def moodless_def trackA_def trackB_def
        newTrack_def chill_def)

section \<open>Enrichment pipeline: the claims\<close>

text \<open>
  Claim C1. In every state \<open>s\<close> the pipeline can reach from its initial state, at most
  one call of the insight service is outstanding, and while one is outstanding the flag
  \<open>isInsightLoading\<close> is set. A run of the effect issues a call only when the flag is
  clear and nothing is outstanding, and sets the flag together with issuing it. The flag
  is cleared by no event other than the return of the outstanding call (with an insight
  or with \<^verbatim>\<open>null\<close>), and the state in which it is clear already has the returned
  insight merged into the catalog and nothing outstanding. Each run of the effect and
  each resumption after the \<^verbatim>\<open>await\<close> is one atomic step on the current state.
\<close>

theorem single_flight:
  assumes "s = run initialApp es"
  shows "length (pending s) \<le> 1
       \<and> (pending s \<noteq> [] \<longrightarrow> isInsightLoading s)
       \<and> (pending (fire Effect s) \<noteq> pending s \<longrightarrow>
            \<not> isInsightLoading s \<and> pending s = [] \<and>
            isInsightLoading (fire Effect s) \<and> length (pending (fire Effect s)) = 1)
       \<and> (isInsightLoading s \<and> \<not> isInsightLoading (fire e s) \<longrightarrow>
            (\<exists>u r. pending s = [u] \<and> e = Returned 0 r \<and> r \<noteq> Rejected \<and>
               pending (fire e s) = [] \<and>
               (\<forall>i. r = Got i \<longrightarrow>
                  tracks (fire e s) =
                    map (\<lambda>t. if track_id t = track_id u then t\<lparr>insight := Some i\<rparr> else t)
                      (tracks s))))"
proof -
  have sf: "singleFlight s"
    using assms reachable_singleFlight by simp
  then have a: "length (pending s) \<le> 1" and b: "pending s \<noteq> [] \<longrightarrow> isInsightLoading s"
    by (auto simp: singleFlight_iff)
  have c: "pending (fire Effect s) \<noteq> pending s \<longrightarrow>
            \<not> isInsightLoading s \<and> pending s = [] \<and>
            isInsightLoading (fire Effect s) \<and> length (pending (fire Effect s)) = 1"
  proof
    assume ne: "pending (fire Effect s) \<noteq> pending s"
    then have ne': "pending (analyzeUnprocessed s) \<noteq> pending s" by simp
    from pending_Effect [OF ne'] obtain t where
      t: "\<not> isInsightLoading s" "isInsightLoading (analyzeUnprocessed s)"
         "pending (analyzeUnprocessed s) = pending s @ [t]" by blast
    from t(1) b have "pending s = []" by blast
    with t show "\<not> isInsightLoading s \<and> pending s = [] \<and>
            isInsightLoading (fire Effect s) \<and> length (pending (fire Effect s)) = 1"
      by simp
  qed
  have d: "isInsightLoading s \<and> \<not> isInsightLoading (fire e s) \<longrightarrow>
            (\<exists>u r. pending s = [u] \<and> e = Returned 0 r \<and> r \<noteq> Rejected \<and>
               pending (fire e s) = [] \<and>
               (\<forall>i. r = Got i \<longrightarrow>
                  tracks (fire e s) =
                    map (\<lambda>t. if track_id t = track_id u then t\<lparr>insight := Some i\<rparr> else t)
                      (tracks s)))"
  proof
    assume h: "isInsightLoading s \<and> \<not> isInsightLoading (fire e s)"
    then obtain k r where kr: "e = Returned k r" "k < length (pending s)" "r \<noteq> Rejected"
      using flag_cleared by blast
    from kr(2) a obtain u where u: "pending s = [u]" "k = 0"
      by (cases "pending s") auto
    have e0: "e = Returned 0 r" using kr(1) u(2) by simp
    have p: "pending (fire e s) = []"
      using kr u by (simp add: analyzeUnprocessed_resume_def split: Response.splits)
    have q: "\<forall>i. r = Got i \<longrightarrow>
                  tracks (fire e s) =
                    map (\<lambda>t. if track_id t = track_id u then t\<lparr>insight := Some i\<rparr> else t)
                      (tracks s)"
      using kr u by (simp add: analyzeUnprocessed_resume_def)
    show "\<exists>u r. pending s = [u] \<and> e = Returned 0 r \<and> r \<noteq> Rejected \<and>
               pending (fire e s) = [] \<and>
               (\<forall>i. r = Got i \<longrightarrow>
                  tracks (fire e s) =
                    map (\<lambda>t. if track_id t = track_id u then t\<lparr>insight := Some i\<rparr> else t)
                      (tracks s))"
      by (intro exI [of _ u] exI [of _ r] conjI) (rule u(1) e0 kr(3) p q)+
  qed
  show ?thesis by (intro conjI) (rule a b c d)+
qed

theorem single_flight_witness:
  "pending (run initialApp [FilesChosen [fileX, fileY], Effect]) = [newTrack fileX]
   \<and> length (pending (run initialApp [FilesChosen [fileX, fileY], Effect])) \<le> 1
   \<and> isInsightLoading (run initialApp [FilesChosen [fileX, fileY], Effect])
   \<and> pending (fire Effect (run initialApp [FilesChosen [fileX, fileY]]))
         \<noteq> pending (run initialApp [FilesChosen [fileX, fileY]])
   \<and> \<not> isInsightLoading (run initialApp [FilesChosen [fileX, fileY]])
   \<and> \<not> isInsightLoading
         (fire (Returned 0 (Got chill)) (run initialApp [FilesChosen [fileX, fileY], Effect]))
   \<and> pending
         (fire (Returned 0 (Got chill)) (run initialApp [FilesChosen [fileX, fileY], Effect]))
       = []"
proof -
  let ?a = "run initialApp [FilesChosen [fileX, fileY], Effect]"
  let ?b = "run initialApp [FilesChosen [fileX, fileY]]"
  note T = single_flight [OF refl, of "[FilesChosen [fileX, fileY], Effect]"
      "Returned 0 (Got chill)"]
  note U = single_flight [OF refl, of "[FilesChosen [fileX, fileY]]" Effect]
  have p: "pending ?a = [newTrack fileX]" by (simp add: scenario_XY)
  have l: "length (pending ?a) \<le> 1" using T by (rule conjunct1)
  have "pending ?a \<noteq> [] \<longrightarrow> isInsightLoading ?a"
    using T by (elim conjE)
  with p have f: "isInsightLoading ?a" by simp
  have n: "pending (fire Effect ?b) \<noteq> pending ?b" by (simp add: eval_defs)
  have "pending (fire Effect ?b) \<noteq> pending ?b \<longrightarrow>
          \<not> isInsightLoading ?b \<and> pending ?b = [] \<and>
          isInsightLoading (fire Effect ?b) \<and> length (pending (fire Effect ?b)) = 1"
    using U by (elim conjE)
  with n have g: "\<not> isInsightLoading ?b" by blast
  have c: "\<not> isInsightLoading (fire (Returned 0 (Got chill)) ?a)"
    by (simp add: scenario_XY analyzeUnprocessed_resume_def)
  have "isInsightLoading ?a \<and> \<not> isInsightLoading (fire (Returned 0 (Got chill)) ?a) \<longrightarrow>
          (\<exists>u r. pending ?a = [u] \<and> Returned 0 (Got chill) = Returned 0 r \<and> r \<noteq> Rejected \<and>
             pending (fire (Returned 0 (Got chill)) ?a) = [] \<and>
             (\<forall>i. r = Got i \<longrightarrow>
                tracks (fire (Returned 0 (Got chill)) ?a) =
                  map (\<lambda>t. if track_id t = track_id u then t\<lparr>insight := Some i\<rparr> else t)
                    (tracks ?a)))"
    using T by (elim conjE)
  with f c have e: "pending (fire (Returned 0 (Got chill)) ?a) = []" by blast
  show ?thesis by (intro conjI) (rule p l f n g c e)+
qed




text \<open>
  Claim C9, as amended. Take any state \<open>s\<close> the pipeline can reach and any further sequence of
  events leading to \<open>s'\<close>, and let the track identifiers of the catalog be pairwise
  distinct (identifiers never change and tracks are never removed, so it is enough to
  ask this of \<open>s'\<close>). A track that has an insight in \<open>s\<close> is still at
  its position in \<open>s'\<close>, with the same identifier and the same insight: an insight is
  written only to a track that has none, hence at most once, and is never replaced.
\<close>

theorem insight_written_once:
  assumes "s = run initialApp es" and "s' = run s es'"
    and "distinct (map track_id (tracks s'))"
    and "i < length (tracks s)" and "insight (tracks s ! i) = Some v"
  shows "i < length (tracks s') \<and> track_id (tracks s' ! i) = track_id (tracks s ! i)
         \<and> insight (tracks s' ! i) = Some v"
proof -
  have "singleFlight s"
    using assms(1) reachable_singleFlight by simp
  then have "insight (tracks s' ! i) = Some v"
    using keep_run assms by simp
  with id_kept_run [OF assms(4), of es'] assms(2) show ?thesis by simp
qed

theorem insight_written_once_witness:
  "distinct (map track_id (tracks (run
      (run initialApp [FilesChosen [fileX, fileY], Effect, Returned 0 (Got chill)])
      [Effect, LoadedMetadata (Some ''x1'') 200, Returned 0 (Got dark), Effect])))
   \<and> (0 :: nat) < length (tracks
        (run initialApp [FilesChosen [fileX, fileY], Effect, Returned 0 (Got chill)]))
   \<and> insight (tracks
        (run initialApp [FilesChosen [fileX, fileY], Effect, Returned 0 (Got chill)]) ! 0)
       = Some chill
   \<and> insight (tracks (run
        (run initialApp [FilesChosen [fileX, fileY], Effect, Returned 0 (Got chill)])
        [Effect, LoadedMetadata (Some ''x1'') 200, Returned 0 (Got dark), Effect]) ! 0)
       = Some chill"
proof -
  let ?a = "run initialApp [FilesChosen [fileX, fileY], Effect, Returned 0 (Got chill)]"
  let ?b = "run ?a [Effect, LoadedMetadata (Some ''x1'') 200, Returned 0 (Got dark), Effect]"
  have d: "distinct (map track_id (tracks ?b))" by (simp add: eval_defs)
  have l: "(0 :: nat) < length (tracks ?a)" by (simp add: eval_defs)
  have v: "insight (tracks ?a ! 0) = Some chill" by (simp add: eval_defs)
  have w: "insight (tracks ?b ! 0) = Some chill"
    using insight_written_once [OF refl refl d l v] by (elim conjE)
  show ?thesis by (intro conjI) (rule d l v w)+
qed

text \<open>
  The claim as first stated, for every sequence of updates, fails when two tracks carry
  one identifier, which nothing in \<^verbatim>\<open>handleFileUpload\<close> excludes: a second file
  receives the identifier of a track that already has its insight, and the insight
  returned for the new track is merged into both, replacing the first.
\<close>

theorem insight_written_once_counterexample:
  "insight (tracks (run initialApp [FilesChosen [fileX], Effect, Returned 0 (Got chill)]) ! 0)
     = Some chill
   \<and> insight (tracks (run initialApp
        [FilesChosen [fileX], Effect, Returned 0 (Got chill),
         FilesChosen [fileY\<lparr>upload_id := ''x1''\<rparr>], Effect, Returned 0 (Got dark)]) ! 0)
     = Some dark"
  by (simp add: eval_defs)

end
